theory Spec2Isabelle
  imports Complex_Main
begin

section \<open>The dipole distance-modulus model of the CosmicBulkMap notebook\<close>

text \<open>
  The notebook \<^verbatim>\<open>notebooks/example_analysis.ipynb\<close> holds the whole numerical core:
  the function \<^verbatim>\<open>dipole_mu_physical\<close> (cell 4) and the cell that builds the array
  \<^verbatim>\<open>dipole_map\<close> (cell 6). Both call three libraries: a background cosmology
  (\<^verbatim>\<open>cosmo.distmod\<close>), a coordinate library (\<^verbatim>\<open>SkyCoord\<close>, \<^verbatim>\<open>separation\<close>) and a
  pixelisation of the sphere (\<^verbatim>\<open>hp.nside2npix\<close>, \<^verbatim>\<open>hp.pix2ang\<close>). The libraries are
  not part of the repository, so the embedding takes them as parameters, and every
  theorem holds for whatever library is plugged in.

  Numbers are modelled as \<^typ>\<open>real\<close>: the embedding describes the arithmetic the
  code writes down, not the rounding of IEEE doubles.
\<close>

subsection \<open>Failures\<close>

text \<open>
  No statement of the notebook raises. A failure can only come out of a library call;
  it is the value \<open>Inl e\<close> and is handed on unchanged. \<open>InvalidInput\<close> is the
  condition the specification names for a rejected redshift.
\<close>

datatype error = InvalidInput | CollaboratorError string

subsection \<open>The collaborators\<close>

text \<open>
  \<^verbatim>\<open>cosmo.distmod(z).value\<close>: the isotropic distance modulus at a redshift. In the notebook
  \<^verbatim>\<open>cosmo\<close> is a global (\<^verbatim>\<open>FlatLambdaCDM(H0=67.4, Om0=0.315)\<close>) that the function
  reads; here it is the first argument.
\<close>

type_synonym cosmology = "real \<Rightarrow> error + real"

text \<open>
  \<^verbatim>\<open>SkyCoord(l=l*u.deg, b=b*u.deg, frame='galactic')\<close> builds a coordinate object from a
  longitude and a latitude in degrees, and \<^verbatim>\<open>x.separation(y).rad\<close> is the angle between
  two of them in radians (the receiver \<^verbatim>\<open>x\<close> is the first argument).
\<close>

record 'c geometry =
  SkyCoord :: "real \<Rightarrow> real \<Rightarrow> error + 'c"
  separation :: "'c \<Rightarrow> 'c \<Rightarrow> error + real"

text \<open>
  \<^verbatim>\<open>hp.nside2npix(NSIDE)\<close> is the number of cells at a resolution, and
  \<^verbatim>\<open>hp.pix2ang(NSIDE, p, lonlat=True)\<close> the centre of cell \<open>p\<close> as (longitude, latitude)
  in degrees.
\<close>

record tessellation =
  nside2npix :: "nat \<Rightarrow> nat"
  pix2ang :: "nat \<Rightarrow> nat \<Rightarrow> real \<times> real"

subsection \<open>\<^verbatim>\<open>dipole_mu_physical\<close>\<close>

text \<open>
  \<^verbatim>\<open>
  def dipole_mu_physical(z, A, l0, b0, l_sn, b_sn):
      mu_cosmo = cosmo.distmod(z).value
      dipole_coord = SkyCoord(l=l0*u.deg, b=b0*u.deg, frame='galactic')
      sn_coords = SkyCoord(l=l_sn*u.deg, b=b_sn*u.deg, frame='galactic')
      angle = sn_coords.separation(dipole_coord).rad
      return mu_cosmo + (A * np.cos(angle))
  \<close>
  The statements run in this order, so the first library call that fails decides the
  failure.
\<close>

definition dipole_mu_physical ::
  "cosmology \<Rightarrow> 'c geometry \<Rightarrow> real \<Rightarrow> real \<Rightarrow> real \<Rightarrow> real \<Rightarrow> real \<Rightarrow> real \<Rightarrow> error + real" where
  "dipole_mu_physical cosmo geo z A l0 b0 l_sn b_sn =
     (case cosmo z of
        Inl e \<Rightarrow> Inl e
      | Inr mu_cosmo \<Rightarrow>
          (case SkyCoord geo l0 b0 of
             Inl e \<Rightarrow> Inl e
           | Inr dipole_coord \<Rightarrow>
               (case SkyCoord geo l_sn b_sn of
                  Inl e \<Rightarrow> Inl e
                | Inr sn_coords \<Rightarrow>
                    (case separation geo sn_coords dipole_coord of
                       Inl e \<Rightarrow> Inl e
                     | Inr angle \<Rightarrow> Inr (mu_cosmo + (A * cos angle))))))"

text \<open>The parameters the notebook assumes for its demonstration.\<close>

definition A_fit :: real where "A_fit = 0.05"
definition l0_fit :: real where "l0_fit = 275.0"
definition b0_fit :: real where "b0_fit = 56.0"

subsection \<open>The sky map \<^verbatim>\<open>dipole_map\<close>\<close>

text \<open>
  A library call on an array fails as a whole when one element is refused: the first
  failure in index order is the result.
\<close>

fun all_ok :: "(error + 'a) list \<Rightarrow> error + 'a list" where
  "all_ok [] = Inr []"
| "all_ok (x # xs) =
     (case x of
        Inl e \<Rightarrow> Inl e
      | Inr v \<Rightarrow> (case all_ok xs of Inl e \<Rightarrow> Inl e | Inr vs \<Rightarrow> Inr (v # vs)))"

text \<open>
  \<^verbatim>\<open>
  NPIX = hp.nside2npix(NSIDE)
  pixel_indices = np.arange(NPIX)
  l_pix_deg, b_pix_deg = hp.pix2ang(NSIDE, pixel_indices, lonlat=True)
  dipole_coord = SkyCoord(l=l_dipole_deg*u.deg, b=b_dipole_deg*u.deg, frame='galactic')
  pixel_coords = SkyCoord(l=l_pix_deg*u.deg, b=b_pix_deg*u.deg, frame='galactic')
  angle = dipole_coord.separation(pixel_coords).rad
  dipole_map = amp_dipole * np.cos(angle)
  \<close>
  The cell is a function of its four constants \<^verbatim>\<open>NSIDE\<close>, \<^verbatim>\<open>amp_dipole\<close>,
  \<^verbatim>\<open>l_dipole_deg\<close> and \<^verbatim>\<open>b_dipole_deg\<close>. The background cosmology does not occur in it.
\<close>

definition dipole_map ::
  "tessellation \<Rightarrow> 'c geometry \<Rightarrow> nat \<Rightarrow> real \<Rightarrow> real \<Rightarrow> real \<Rightarrow> error + real list" where
  "dipole_map hp geo NSIDE amp_dipole l_dipole_deg b_dipole_deg =
     (let NPIX = nside2npix hp NSIDE;
          pixel_indices = [0..<NPIX];
          lb_pix_deg = map (pix2ang hp NSIDE) pixel_indices
      in case SkyCoord geo l_dipole_deg b_dipole_deg of
           Inl e \<Rightarrow> Inl e
         | Inr dipole_coord \<Rightarrow>
             (case all_ok (map (\<lambda>(l, b). SkyCoord geo l b) lb_pix_deg) of
                Inl e \<Rightarrow> Inl e
              | Inr pixel_coords \<Rightarrow>
                  (case all_ok (map (separation geo dipole_coord) pixel_coords) of
                     Inl e \<Rightarrow> Inl e
                   | Inr angle \<Rightarrow> Inr (map (\<lambda>a. amp_dipole * cos a) angle))))"

text \<open>The constants of the notebook's cell.\<close>

definition NSIDE_demo :: nat where "NSIDE_demo = 32"
definition l_dipole_deg_demo :: real where "l_dipole_deg_demo = 275.0"
definition b_dipole_deg_demo :: real where "b_dipole_deg_demo = 56.0"
definition amp_dipole_demo :: real where "amp_dipole_demo = 0.05"

section \<open>Notions the claims are stated with\<close>

text \<open>
  Directions are pairs (longitude, latitude) in degrees. The unit vector of a direction
  and the scalar product give the great-circle angle its meaning: a geometry library
  measures great-circle angles when the cosine of the separation it reports is the scalar
  product of the two unit vectors.
\<close>

definition deg2rad :: "real \<Rightarrow> real" where
  "deg2rad x = x * pi / 180"

definition unit_vector :: "real \<Rightarrow> real \<Rightarrow> real \<times> real \<times> real" where
  "unit_vector l b =
     (cos (deg2rad b) * cos (deg2rad l), cos (deg2rad b) * sin (deg2rad l), sin (deg2rad b))"

definition dot :: "real \<times> real \<times> real \<Rightarrow> real \<times> real \<times> real \<Rightarrow> real" where
  "dot u v = fst u * fst v + fst (snd u) * fst (snd v) + snd (snd u) * snd (snd v)"

definition great_circle_angle :: "'c geometry \<Rightarrow> bool" where
  "great_circle_angle geo \<longleftrightarrow>
     (\<forall>l b l' b' c c' theta.
        SkyCoord geo l b = Inr c \<longrightarrow> SkyCoord geo l' b' = Inr c' \<longrightarrow>
        separation geo c c' = Inr theta \<longrightarrow>
        cos theta = dot (unit_vector l b) (unit_vector l' b'))"

text \<open>
  The centre of cell \<open>p\<close> as a unit vector, and a tessellation whose cell centres balance:
  their unit vectors add up to the zero vector. (On the sphere the mean of the position
  vector is zero; \<open>centred\<close> is the same fact for the finitely many cell centres.)
\<close>

definition centre_vector :: "tessellation \<Rightarrow> nat \<Rightarrow> nat \<Rightarrow> real \<times> real \<times> real" where
  "centre_vector hp NSIDE p = unit_vector (fst (pix2ang hp NSIDE p)) (snd (pix2ang hp NSIDE p))"

definition centred :: "tessellation \<Rightarrow> nat \<Rightarrow> bool" where
  "centred hp NSIDE \<longleftrightarrow>
     (\<Sum>p<nside2npix hp NSIDE. fst (centre_vector hp NSIDE p)) = 0
     \<and> (\<Sum>p<nside2npix hp NSIDE. fst (snd (centre_vector hp NSIDE p))) = 0
     \<and> (\<Sum>p<nside2npix hp NSIDE. snd (snd (centre_vector hp NSIDE p))) = 0"

section \<open>Example collaborators\<close>

text \<open>
  The theorems hold for every collaborator. To show that their hypotheses can be met, they
  are instantiated with the stand-ins of this section: the spherical law of cosines for
  the geometry, the low-redshift luminosity distance for the cosmology, and the ring
  numbering of the HEALPix pixelisation for the tessellation.
\<close>

subsection \<open>Geometry: the spherical law of cosines\<close>

text \<open>
  A coordinate object is the pair (longitude, latitude) in degrees; a latitude outside
  \<open>[-90, 90]\<close> is refused.
\<close>

definition central_angle :: "real \<times> real \<Rightarrow> real \<times> real \<Rightarrow> real" where
  "central_angle p q =
     arccos (sin (deg2rad (snd p)) * sin (deg2rad (snd q))
             + cos (deg2rad (snd p)) * cos (deg2rad (snd q)) * cos (deg2rad (fst p) - deg2rad (fst q)))"

definition great_circle :: "(real \<times> real) geometry" where
  "great_circle =
     \<lparr>SkyCoord = (\<lambda>l b. if - 90 \<le> b \<and> b \<le> 90 then Inr (l, b)
                        else Inl (CollaboratorError ''latitude outside [-90, 90] degrees'')),
      separation = (\<lambda>p q. Inr (central_angle p q))\<rparr>"

subsection \<open>Cosmology: the low-redshift Hubble flow\<close>

text \<open>
  \<open>d\<^sub>L = (c / H\<^sub>0) z (1 + z)\<close> in Mpc with the notebook's \<open>H\<^sub>0 = 67.4\<close>, and
  \<open>\<mu> = 5 log\<^sub>1\<^sub>0 |d\<^sub>L| + 25\<close>; the modulus is undefined where the distance is zero. The
  model accepts negative redshifts down to \<open>z = -1\<close> (excluded).
\<close>

definition hubble_distance :: real where
  "hubble_distance = 299792.458 / 67.4"

definition hubble_flow :: cosmology where
  "hubble_flow z =
     (if z = 0 \<or> z = - 1 then Inl (CollaboratorError ''zero luminosity distance'')
      else Inr (5 * log 10 \<bar>hubble_distance * z * (1 + z)\<bar> + 25))"

subsection \<open>Tessellation: HEALPix in ring numbering\<close>

text \<open>
  At resolution \<open>nside\<close> the sphere has \<open>12 nside\<^sup>2\<close> equal-area cells, numbered along
  rings of constant latitude from north to south: a polar cap of \<open>nside - 1\<close> rings with
  \<open>4 i\<close> cells in ring \<open>i\<close>, an equatorial belt of \<open>2 nside + 1\<close> rings with \<open>4 nside\<close> cells
  each, and the mirrored southern cap. \<open>pix2zphi_ring\<close> gives the centre of a cell as
  (\<open>z = cos \<theta>\<close>, \<open>\<phi>\<close>); with \<^verbatim>\<open>lonlat=True\<close> the library returns the longitude \<open>\<phi>\<close> and the
  latitude \<open>90\<degree> - \<theta>\<close>, both in degrees.
\<close>

primrec isqrt :: "nat \<Rightarrow> nat" where
  "isqrt 0 = 0"
| "isqrt (Suc n) = (if (isqrt n + 1) * (isqrt n + 1) \<le> Suc n then isqrt n + 1 else isqrt n)"

definition pix2zphi_ring :: "nat \<Rightarrow> nat \<Rightarrow> real \<times> real" where
  "pix2zphi_ring nside pix =
     (let npix = 12 * nside * nside; ncap = 2 * nside * (nside - 1)
      in if pix < ncap then
           (let iring = (1 + isqrt (1 + 2 * pix)) div 2;
                iphi = (pix + 1) - 2 * iring * (iring - 1)
            in (1 - real (iring * iring) * (4 / real npix),
                (real iphi - 1 / 2) * (pi / 2) / real iring))
         else if pix < npix - ncap then
           (let ip = pix - ncap;
                tmp = ip div (4 * nside);
                iring = tmp + nside;
                iphi = ip - 4 * nside * tmp + 1;
                fodd = (if odd (iring + nside) then 1 else 1 / 2)
            in ((real (2 * nside) - real iring) * (2 / (3 * real nside)),
                (real iphi - fodd) * (pi / (2 * real nside))))
         else
           (let ip = npix - pix;
                iring = (1 + isqrt (2 * ip - 1)) div 2;
                iphi = 4 * iring + 1 - (ip - 2 * iring * (iring - 1))
            in (real (iring * iring) * (4 / real npix) - 1,
                (real iphi - 1 / 2) * (pi / 2) / real iring)))"

definition healpix :: tessellation where
  "healpix =
     \<lparr>nside2npix = (\<lambda>nside. 12 * nside * nside),
      pix2ang = (\<lambda>nside ipix. case pix2zphi_ring nside ipix of
                   (z, phi) \<Rightarrow> (phi * 180 / pi, 90 - arccos z * 180 / pi))\<rparr>"

section \<open>Lemmas about the embedding\<close>

text \<open>An array call succeeds exactly when every element does.\<close>

lemma all_ok_Inr_iff: "all_ok xs = Inr ys \<longleftrightarrow> xs = map Inr ys"
proof (induction xs arbitrary: ys)
  case Nil
  show ?case by auto
next
  case (Cons x xs)
  show ?case
  proof (cases x)
    case (Inl e)
    then show ?thesis by auto
  next
    case (Inr v)
    show ?thesis
    proof (cases "all_ok xs")
      case (Inl e)
      with Cons.IH have "\<And>zs. xs \<noteq> map Inr zs" by auto
      with Inl Inr show ?thesis by (cases ys) auto
    next
      case r: (Inr vs)
      with Cons.IH [of vs] have xs: "xs = map Inr vs" by simp
      show ?thesis using Inr r xs by (cases ys) (auto simp: inj_map_eq_map)
    qed
  qed
qed

lemma all_ok_map_Inr:
  assumes "\<And>x. x \<in> set xs \<Longrightarrow> f x = Inr (g x)"
  shows "all_ok (map f xs) = Inr (map g xs)"
  unfolding all_ok_Inr_iff using assms by simp

text \<open>When the sky map is produced, and what it then holds.\<close>

lemma dipole_map_InrI:
  assumes d: "SkyCoord geo l0 b0 = Inr d"
    and c: "\<And>p. p < nside2npix hp NSIDE \<Longrightarrow>
              SkyCoord geo (fst (pix2ang hp NSIDE p)) (snd (pix2ang hp NSIDE p)) = Inr (c p)"
    and t: "\<And>p. p < nside2npix hp NSIDE \<Longrightarrow> separation geo d (c p) = Inr (theta p)"
  shows "dipole_map hp geo NSIDE A l0 b0 =
           Inr (map (\<lambda>p. A * cos (theta p)) [0..<nside2npix hp NSIDE])"
proof -
  have 1: "all_ok (map (\<lambda>(l, b). SkyCoord geo l b) (map (pix2ang hp NSIDE) [0..<nside2npix hp NSIDE]))
      = Inr (map c [0..<nside2npix hp NSIDE])"
    unfolding map_map by (rule all_ok_map_Inr) (simp add: c case_prod_beta)
  have 2: "all_ok (map (separation geo d) (map c [0..<nside2npix hp NSIDE]))
      = Inr (map theta [0..<nside2npix hp NSIDE])"
    unfolding map_map by (rule all_ok_map_Inr) (simp add: t)
  show ?thesis
    by (simp only: dipole_map_def Let_def d 1 2 sum.case) simp
qed

lemma dipole_map_InrD:
  assumes "dipole_map hp geo NSIDE A l0 b0 = Inr vs"
  shows "\<exists>d cs thetas.
           SkyCoord geo l0 b0 = Inr d
           \<and> length cs = nside2npix hp NSIDE \<and> length thetas = nside2npix hp NSIDE
           \<and> (\<forall>p<nside2npix hp NSIDE.
                 SkyCoord geo (fst (pix2ang hp NSIDE p)) (snd (pix2ang hp NSIDE p)) = Inr (cs ! p)
                 \<and> separation geo d (cs ! p) = Inr (thetas ! p))
           \<and> vs = map (\<lambda>a. A * cos a) thetas"
proof -
  let ?N = "nside2npix hp NSIDE"
  from assms obtain d cs thetas where d: "SkyCoord geo l0 b0 = Inr d"
    and cs: "all_ok (map (\<lambda>(l, b). SkyCoord geo l b) (map (pix2ang hp NSIDE) [0..<?N])) = Inr cs"
    and th: "all_ok (map (separation geo d) cs) = Inr thetas"
    and vs: "vs = map (\<lambda>a. A * cos a) thetas"
    by (auto simp: dipole_map_def Let_def split: sum.splits)
  from cs have cs': "map (\<lambda>p. SkyCoord geo (fst (pix2ang hp NSIDE p)) (snd (pix2ang hp NSIDE p))) [0..<?N]
      = map Inr cs"
    by (simp add: all_ok_Inr_iff case_prod_beta comp_def)
  from th have th': "map (separation geo d) cs = map Inr thetas" by (simp add: all_ok_Inr_iff)
  have lc: "length cs = ?N" using arg_cong [OF cs', of length] by simp
  have lt: "length thetas = ?N" using arg_cong [OF th', of length] lc by simp
  have "SkyCoord geo (fst (pix2ang hp NSIDE p)) (snd (pix2ang hp NSIDE p)) = Inr (cs ! p)
      \<and> separation geo d (cs ! p) = Inr (thetas ! p)" if "p < ?N" for p
    using arg_cong [OF cs', of "\<lambda>xs. xs ! p"] arg_cong [OF th', of "\<lambda>xs. xs ! p"] that lc lt
    by simp
  with d lc lt vs show ?thesis by blast
qed

section \<open>Facts about the example collaborators\<close>

subsection \<open>The great-circle geometry\<close>

lemma great_circle_SkyCoord:
  "- 90 \<le> b \<Longrightarrow> b \<le> 90 \<Longrightarrow> SkyCoord great_circle l b = Inr (l, b)"
  by (simp add: great_circle_def)

lemma great_circle_separation_self: "separation great_circle c c = Inr 0"
proof -
  obtain l b where c: "c = (l, b)" by (cases c)
  have "sin (deg2rad b) * sin (deg2rad b) + cos (deg2rad b) * cos (deg2rad b) = 1"
    using sin_cos_squared_add [of "deg2rad b"] by (simp add: power2_eq_square)
  then show ?thesis by (simp add: c great_circle_def central_angle_def)
qed

lemma dot_unit_vectors:
  "dot (unit_vector l b) (unit_vector l' b') =
     sin (deg2rad b) * sin (deg2rad b')
     + cos (deg2rad b) * cos (deg2rad b') * cos (deg2rad l - deg2rad l')"
  by (simp add: dot_def unit_vector_def cos_diff algebra_simps)

lemma cosine_rule_bounded:
  fixes x y d :: real
  shows "\<bar>sin x * sin y + cos x * cos y * cos d\<bar> \<le> 1"
proof -
  have "\<bar>sin x * sin y + cos x * cos y * cos d\<bar> \<le> \<bar>sin x * sin y\<bar> + \<bar>cos x * cos y * cos d\<bar>"
    by (rule abs_triangle_ineq)
  also have "\<bar>cos x * cos y * cos d\<bar> = \<bar>cos x * cos y\<bar> * \<bar>cos d\<bar>" by (simp only: abs_mult)
  also have "\<dots> \<le> \<bar>cos x * cos y\<bar> * 1"
    by (rule mult_left_mono) simp_all
  finally have 1: "\<bar>sin x * sin y + cos x * cos y * cos d\<bar> \<le> \<bar>sin x * sin y\<bar> + \<bar>cos x * cos y\<bar>"
    by simp
  have a: "2 * (\<bar>sin x\<bar> * \<bar>sin y\<bar>) \<le> (sin x)\<^sup>2 + (sin y)\<^sup>2"
    using sum_squares_bound [of "\<bar>sin x\<bar>" "\<bar>sin y\<bar>"] by (simp add: power2_abs mult.assoc)
  have b: "2 * (\<bar>cos x\<bar> * \<bar>cos y\<bar>) \<le> (cos x)\<^sup>2 + (cos y)\<^sup>2"
    using sum_squares_bound [of "\<bar>cos x\<bar>" "\<bar>cos y\<bar>"] by (simp add: power2_abs mult.assoc)
  have c: "(sin x)\<^sup>2 + (cos x)\<^sup>2 = 1" by (rule sin_cos_squared_add)
  have d: "(sin y)\<^sup>2 + (cos y)\<^sup>2 = 1" by (rule sin_cos_squared_add)
  from a b c d have "\<bar>sin x\<bar> * \<bar>sin y\<bar> + \<bar>cos x\<bar> * \<bar>cos y\<bar> \<le> 1" by linarith
  with 1 show ?thesis by (simp add: abs_mult)
qed

lemma cos_central_angle:
  "cos (central_angle (l, b) (l', b')) = dot (unit_vector l b) (unit_vector l' b')"
proof -
  have "\<bar>sin (deg2rad b) * sin (deg2rad b')
      + cos (deg2rad b) * cos (deg2rad b') * cos (deg2rad l - deg2rad l')\<bar> \<le> 1"
    by (rule cosine_rule_bounded)
  then show ?thesis
    unfolding dot_unit_vectors central_angle_def fst_conv snd_conv
    by (intro cos_arccos) (simp_all add: abs_le_iff)
qed

lemma great_circle_great_circle_angle: "great_circle_angle great_circle"
  unfolding great_circle_angle_def
  by (auto simp: great_circle_def cos_central_angle split: if_splits)

lemma great_circle_antipode: "central_angle (l + 180, - b) (l, b) = pi"
proof -
  have "deg2rad (l + 180) - deg2rad l = pi" by (simp add: deg2rad_def field_simps)
  moreover have "deg2rad (- b) = - deg2rad b" by (simp add: deg2rad_def)
  moreover have "- (sin (deg2rad b) * sin (deg2rad b)) - cos (deg2rad b) * cos (deg2rad b) = - 1"
    using sin_cos_squared_add [of "deg2rad b"] by (simp add: power2_eq_square)
  ultimately show ?thesis by (simp add: central_angle_def)
qed

subsection \<open>The Hubble flow\<close>

lemma hubble_distance_pos: "0 < hubble_distance"
  by (simp add: hubble_distance_def)

lemma hubble_flow_positive:
  "0 < z \<Longrightarrow> hubble_flow z = Inr (5 * log 10 (hubble_distance * z * (1 + z)) + 25)"
  using hubble_distance_pos by (simp add: hubble_flow_def abs_of_pos)

lemma hubble_flow_increasing:
  assumes "0 \<le> a" "a < b" "hubble_flow a = Inr ma" "hubble_flow b = Inr mb"
  shows "ma < mb"
proof -
  have a: "0 < a" using assms(1,3) by (cases "a = 0") (auto simp: hubble_flow_def)
  then have b: "0 < b" using assms(2) by simp
  have "a * (1 + a) < b * (1 + b)"
    using a assms(2) by (intro mult_strict_mono) auto
  then have lt: "hubble_distance * (a * (1 + a)) < hubble_distance * (b * (1 + b))"
    using hubble_distance_pos by (rule mult_strict_left_mono)
  have "0 < hubble_distance * (a * (1 + a))" using a hubble_distance_pos by simp
  then have "log 10 (hubble_distance * (a * (1 + a))) < log 10 (hubble_distance * (b * (1 + b)))"
    using lt by (subst log_less_cancel_iff) auto
  then show ?thesis
    using assms(3,4) hubble_flow_positive [OF a] hubble_flow_positive [OF b]
    by (simp add: mult.assoc)
qed

subsection \<open>HEALPix: which ring a cell lies on\<close>

lemma isqrt_bounds: "isqrt n * isqrt n \<le> n \<and> n < (isqrt n + 1) * (isqrt n + 1)"
proof (induction n)
  case 0
  show ?case by simp
next
  case (Suc n)
  show ?case
  proof (cases "(isqrt n + 1) * (isqrt n + 1) \<le> Suc n")
    case True
    have "Suc n < (isqrt n + 1 + 1) * (isqrt n + 1 + 1)"
      using Suc by (simp add: algebra_simps)
    with True show ?thesis by simp
  next
    case False
    then show ?thesis using Suc by simp
  qed
qed

lemma nat_sq_mono: "(a::nat) \<le> b \<Longrightarrow> a * a \<le> b * b"
  by (rule mult_le_mono)

lemma isqrt_between:
  assumes "a * a \<le> n" "n < b * b"
  shows "a \<le> isqrt n \<and> isqrt n < b"
proof -
  let ?s = "isqrt n"
  have s: "?s * ?s \<le> n" "n < (?s + 1) * (?s + 1)" using isqrt_bounds [of n] by auto
  have "a \<le> ?s"
  proof (rule ccontr)
    assume "\<not> a \<le> ?s"
    then have "?s + 1 \<le> a" by simp
    from nat_sq_mono [OF this] s(2) assms(1) show False by linarith
  qed
  moreover have "?s < b"
  proof (rule ccontr)
    assume "\<not> ?s < b"
    then have "b \<le> ?s" by simp
    from nat_sq_mono [OF this] s(1) assms(2) show False by linarith
  qed
  ultimately show ?thesis by simp
qed

text \<open>Cells \<open>2 j (j + 1) + k\<close> with \<open>k < 4 (j + 1)\<close> make up ring \<open>j + 1\<close> of a polar cap.\<close>

lemma cap_ring_index:
  assumes "k < 4 * (j + 1)"
  shows "(1 + isqrt (1 + 2 * (2 * j * (j + 1) + k))) div 2 = j + 1"
proof -
  define n where "n = 1 + 2 * (2 * j * (j + 1) + k)"
  have lo: "(2 * j + 1) * (2 * j + 1) \<le> n" by (simp add: n_def algebra_simps)
  have hi: "n < (2 * j + 3) * (2 * j + 3)" using assms by (simp add: n_def algebra_simps)
  have "2 * j + 1 \<le> isqrt n \<and> isqrt n < 2 * j + 3"
    using lo hi by (rule isqrt_between)
  then have "(1 + isqrt n) div 2 = j + 1" by presburger
  then show ?thesis by (simp only: n_def)
qed

lemma cap_blocks:
  fixes g :: "nat \<Rightarrow> real"
  shows "(\<Sum>p<2 * m * (m + 1). g p) = (\<Sum>j<m. \<Sum>k<4 * (j + 1). g (2 * j * (j + 1) + k))"
proof (induction m)
  case 0
  show ?case by simp
next
  case (Suc m)
  have e: "2 * Suc m * (Suc m + 1) = 2 * m * (m + 1) + 4 * (m + 1)" by (simp add: algebra_simps)
  have "(\<Sum>p<2 * Suc m * (Suc m + 1). g p)
      = (\<Sum>p<2 * m * (m + 1). g p) + (\<Sum>p = 2 * m * (m + 1)..<2 * m * (m + 1) + 4 * (m + 1). g p)"
    unfolding e lessThan_atLeast0 by (rule sum.atLeastLessThan_concat [symmetric]) simp_all
  also have "(\<Sum>p = 2 * m * (m + 1)..<2 * m * (m + 1) + 4 * (m + 1). g p)
      = (\<Sum>k<4 * (m + 1). g (2 * m * (m + 1) + k))"
    using sum.shift_bounds_nat_ivl [of g 0 "2 * m * (m + 1)" "4 * (m + 1)"]
    by (simp add: lessThan_atLeast0 add.commute)
  finally show ?case using Suc.IH by simp
qed

lemma npix_split:
  "12 * Suc m * Suc m = 2 * m * (m + 1) + ((2 * Suc m + 1) * (4 * Suc m) + 2 * m * (m + 1))"
  by (simp add: algebra_simps)

lemma cap_pixel_bound:
  fixes j k m :: nat
  assumes "j < m" "k < 4 * (j + 1)"
  shows "2 * j * (j + 1) + k < 2 * m * (m + 1)"
proof -
  have "2 * j * (j + 1) + k < 2 * (j + 1) * (j + 2)" using assms(2) by (simp add: algebra_simps)
  also have "(j + 1) * (j + 2) \<le> m * (m + 1)"
    using assms(1) by (intro mult_le_mono) simp_all
  then have "2 * (j + 1) * (j + 2) \<le> 2 * m * (m + 1)" by simp
  finally show ?thesis .
qed

lemma ring_north:
  assumes "j < m" "k < 4 * (j + 1)"
  shows "pix2zphi_ring (Suc m) (2 * j * (j + 1) + k) =
           (1 - real ((j + 1) * (j + 1)) * (4 / real (12 * Suc m * Suc m)),
            (real k + 1 / 2) * (pi / 2) / real (j + 1))"
proof -
  define pix where "pix = 2 * j * (j + 1) + k"
  have cap: "pix < 2 * Suc m * (Suc m - 1)"
    using cap_pixel_bound [OF assms] by (simp add: pix_def mult.commute mult.left_commute)
  have ring: "(1 + isqrt (1 + 2 * pix)) div 2 = j + 1"
    unfolding pix_def by (rule cap_ring_index [OF assms(2)])
  have iphi: "(pix + 1) - 2 * (j + 1) * ((j + 1) - 1) = k + 1"
    by (simp add: pix_def algebra_simps)
  have "pix2zphi_ring (Suc m) pix =
           (1 - real ((j + 1) * (j + 1)) * (4 / real (12 * Suc m * Suc m)),
            (real (k + 1) - 1 / 2) * (pi / 2) / real (j + 1))"
    unfolding pix2zphi_ring_def Let_def ring iphi using cap by (simp only: if_True)
  then show ?thesis by (simp add: pix_def)
qed

lemma ring_south:
  assumes "j < m" "k < 4 * (j + 1)"
  shows "pix2zphi_ring (Suc m) (12 * Suc m * Suc m - 1 - (2 * j * (j + 1) + k)) =
           (real ((j + 1) * (j + 1)) * (4 / real (12 * Suc m * Suc m)) - 1,
            (real (4 * (j + 1) - k) - 1 / 2) * (pi / 2) / real (j + 1))"
proof -
  define q where "q = 2 * j * (j + 1) + k"
  define pix where "pix = 12 * Suc m * Suc m - 1 - q"
  have q: "q < 2 * m * (m + 1)" unfolding q_def by (rule cap_pixel_bound [OF assms])
  have ncap: "2 * Suc m * (Suc m - 1) = 2 * m * (m + 1)" by (simp add: algebra_simps)
  have n1: "\<not> pix < 2 * Suc m * (Suc m - 1)"
    unfolding ncap pix_def npix_split using q by linarith
  have n2: "\<not> pix < 12 * Suc m * Suc m - 2 * Suc m * (Suc m - 1)"
    unfolding ncap pix_def npix_split using q by linarith
  have ip: "2 * (12 * Suc m * Suc m - pix) - 1 = 1 + 2 * q"
    unfolding pix_def npix_split using q by linarith
  have ring: "(1 + isqrt (2 * (12 * Suc m * Suc m - pix) - 1)) div 2 = j + 1"
    unfolding ip q_def by (rule cap_ring_index [OF assms(2)])
  have "12 * Suc m * Suc m - pix = q + 1"
    unfolding pix_def npix_split using q by linarith
  then have iphi: "4 * (j + 1) + 1 - (12 * Suc m * Suc m - pix - 2 * (j + 1) * ((j + 1) - 1))
      = 4 * (j + 1) - k"
    using assms(2) by (simp add: q_def algebra_simps)
  have "pix2zphi_ring (Suc m) pix =
           (real ((j + 1) * (j + 1)) * (4 / real (12 * Suc m * Suc m)) - 1,
            (real (4 * (j + 1) - k) - 1 / 2) * (pi / 2) / real (j + 1))"
    unfolding pix2zphi_ring_def Let_def ring iphi using n1 n2 by (simp only: if_False)
  then show ?thesis by (simp only: pix_def q_def)
qed

lemma ring_equator:
  assumes "t < 2 * Suc m + 1" "k < 4 * Suc m"
  shows "pix2zphi_ring (Suc m) (2 * m * (m + 1) + (t * (4 * Suc m) + k)) =
           ((real (Suc m) - real t) * (2 / (3 * real (Suc m))),
            (real k + (if odd t then 0 else 1 / 2)) * (pi / (2 * real (Suc m))))"
proof -
  define ip where "ip = t * (4 * Suc m) + k"
  define pix where "pix = 2 * m * (m + 1) + ip"
  have ncap: "2 * Suc m * (Suc m - 1) = 2 * m * (m + 1)" by (simp add: algebra_simps)
  have "t * (4 * Suc m) + 4 * Suc m \<le> (2 * Suc m + 1) * (4 * Suc m)"
    using assms(1) by (metis Suc_leI mult_Suc mult_le_mono1 add.commute)
  then have ipb: "ip < (2 * Suc m + 1) * (4 * Suc m)" using assms(2) by (simp add: ip_def)
  have n1: "\<not> pix < 2 * Suc m * (Suc m - 1)" unfolding ncap pix_def by simp
  have n2: "pix < 12 * Suc m * Suc m - 2 * Suc m * (Suc m - 1)"
    unfolding ncap pix_def npix_split using ipb by linarith
  have sub: "pix - 2 * Suc m * (Suc m - 1) = ip" unfolding ncap pix_def by simp
  have tmp: "ip div (4 * Suc m) = t" using assms(2) by (simp add: ip_def)
  have iphi: "ip - 4 * Suc m * t + 1 = k + 1" by (simp add: ip_def mult.commute)
  have par: "odd (t + Suc m + Suc m) = odd t" by (cases "even t"; cases "even m"; simp)
  have "pix2zphi_ring (Suc m) pix =
           ((real (2 * Suc m) - real (t + Suc m)) * (2 / (3 * real (Suc m))),
            (real (k + 1) - (if odd t then 1 else 1 / 2)) * (pi / (2 * real (Suc m))))"
    unfolding pix2zphi_ring_def Let_def sub tmp iphi par using n1 n2 by (simp only: if_False if_True)
  moreover have "real (2 * Suc m) - real (t + Suc m) = real (Suc m) - real t" by simp
  moreover have "real (k + 1) - (if odd t then 1 else 1 / 2) = real k + (if odd t then 0 else 1 / 2)"
    by simp
  ultimately show ?thesis by (simp only: pix_def ip_def)
qed

subsection \<open>HEALPix: sums over all cells, ring by ring\<close>

lemma healpix_sum:
  fixes f :: "real \<times> real \<Rightarrow> real"
  shows "(\<Sum>p<12 * Suc m * Suc m. f (pix2zphi_ring (Suc m) p)) =
     (\<Sum>j<m. \<Sum>k<4 * (j + 1).
        f (1 - real ((j + 1) * (j + 1)) * (4 / real (12 * Suc m * Suc m)),
           (real k + 1 / 2) * (pi / 2) / real (j + 1)))
     + ((\<Sum>t<2 * Suc m + 1. \<Sum>k<4 * Suc m.
          f ((real (Suc m) - real t) * (2 / (3 * real (Suc m))),
             (real k + (if odd t then 0 else 1 / 2)) * (pi / (2 * real (Suc m)))))
        + (\<Sum>j<m. \<Sum>k<4 * (j + 1).
            f (real ((j + 1) * (j + 1)) * (4 / real (12 * Suc m * Suc m)) - 1,
               (real (4 * (j + 1) - k) - 1 / 2) * (pi / 2) / real (j + 1))))"
proof -
  define g where "g p = f (pix2zphi_ring (Suc m) p)" for p
  define C where "C = 2 * m * (m + 1)"
  define E where "E = (2 * Suc m + 1) * (4 * Suc m)"
  have N: "12 * Suc m * Suc m = C + (E + C)" unfolding C_def E_def by (rule npix_split)
  have "(\<Sum>p<C + (E + C). g p) = (\<Sum>p = 0..<C. g p) + (\<Sum>p = C..<C + (E + C). g p)"
    unfolding lessThan_atLeast0 by (rule sum.atLeastLessThan_concat [symmetric]) simp_all
  also have "(\<Sum>p = C..<C + (E + C). g p) = (\<Sum>p = C..<C + E. g p) + (\<Sum>p = C + E..<C + (E + C). g p)"
    by (rule sum.atLeastLessThan_concat [symmetric]) simp_all
  finally have parts: "(\<Sum>p<C + (E + C). g p) =
      (\<Sum>p<C. g p) + ((\<Sum>p = C..<C + E. g p) + (\<Sum>p = C + E..<C + (E + C). g p))"
    by (simp add: lessThan_atLeast0)
  have north: "(\<Sum>p<C. g p) = (\<Sum>j<m. \<Sum>k<4 * (j + 1).
        f (1 - real ((j + 1) * (j + 1)) * (4 / real (12 * Suc m * Suc m)),
           (real k + 1 / 2) * (pi / 2) / real (j + 1)))"
    unfolding C_def cap_blocks
    by (intro sum.cong refl) (simp only: g_def ring_north lessThan_iff)
  have "(\<Sum>p = C..<C + E. g p) = (\<Sum>ip<E. g (C + ip))"
    using sum.shift_bounds_nat_ivl [of g 0 C E] by (simp add: lessThan_atLeast0 add.commute)
  also have "\<dots> = (\<Sum>t<2 * Suc m + 1. \<Sum>ip = t * (4 * Suc m)..<t * (4 * Suc m) + 4 * Suc m. g (C + ip))"
    unfolding E_def by (rule sum.nat_group [symmetric])
  also have "\<dots> = (\<Sum>t<2 * Suc m + 1. \<Sum>k<4 * Suc m. g (C + (t * (4 * Suc m) + k)))"
  proof -
    have "(\<Sum>ip = t * (4 * Suc m)..<t * (4 * Suc m) + 4 * Suc m. g (C + ip))
        = (\<Sum>k<4 * Suc m. g (C + (t * (4 * Suc m) + k)))" for t
      using sum.shift_bounds_nat_ivl [of "\<lambda>ip. g (C + ip)" 0 "t * (4 * Suc m)" "4 * Suc m"]
      by (simp add: lessThan_atLeast0 add.commute)
    then show ?thesis by (simp only:)
  qed
  also have "\<dots> = (\<Sum>t<2 * Suc m + 1. \<Sum>k<4 * Suc m.
          f ((real (Suc m) - real t) * (2 / (3 * real (Suc m))),
             (real k + (if odd t then 0 else 1 / 2)) * (pi / (2 * real (Suc m)))))"
    unfolding C_def
    by (intro sum.cong refl) (simp only: g_def ring_equator lessThan_iff)
  finally have equator: "(\<Sum>p = C..<C + E. g p) = (\<Sum>t<2 * Suc m + 1. \<Sum>k<4 * Suc m.
          f ((real (Suc m) - real t) * (2 / (3 * real (Suc m))),
             (real k + (if odd t then 0 else 1 / 2)) * (pi / (2 * real (Suc m)))))" .
  have "(\<Sum>p = C + E..<C + (E + C). g p) = (\<Sum>q<C. g (C + (E + C) - 1 - q))"
    by (rule sum.reindex_bij_witness [where i = "\<lambda>q. C + (E + C) - 1 - q"
          and j = "\<lambda>p. C + (E + C) - 1 - p"]) auto
  also have "\<dots> = (\<Sum>j<m. \<Sum>k<4 * (j + 1).
            f (real ((j + 1) * (j + 1)) * (4 / real (12 * Suc m * Suc m)) - 1,
               (real (4 * (j + 1) - k) - 1 / 2) * (pi / 2) / real (j + 1)))"
    unfolding C_def [symmetric] N [symmetric] unfolding C_def cap_blocks
    by (intro sum.cong refl) (simp only: g_def ring_south lessThan_iff)
  finally have south: "(\<Sum>p = C + E..<C + (E + C). g p) = (\<Sum>j<m. \<Sum>k<4 * (j + 1).
            f (real ((j + 1) * (j + 1)) * (4 / real (12 * Suc m * Suc m)) - 1,
               (real (4 * (j + 1) - k) - 1 / 2) * (pi / 2) / real (j + 1)))" .
  show ?thesis
    unfolding N parts north equator south g_def [symmetric] ..
qed

lemma sum_indicator_zero:
  fixes P :: "nat \<Rightarrow> bool"
  assumes "(\<Sum>p<n. if P p then 0 else 1) = (0::real)" "p < n"
  shows "P p"
proof -
  have "(\<Sum>p\<in>{..<n}. if P p then 0 else 1) = (0::real)
      \<longleftrightarrow> (\<forall>p\<in>{..<n}. (if P p then 0 else 1) = (0::real))"
    by (rule sum_nonneg_eq_0_iff) auto
  with assms(1) have "\<forall>p\<in>{..<n}. (if P p then 0 else 1) = (0::real)" by simp
  with assms(2) show ?thesis by (auto split: if_splits)
qed

lemma healpix_z_range:
  assumes "p < 12 * Suc m * Suc m"
  shows "\<bar>fst (pix2zphi_ring (Suc m) p)\<bar> \<le> 1"
proof -
  define N where "N = real (12 * Suc m * Suc m)"
  define n where "n = real (Suc m)"
  have "0 < 12 * Suc m * Suc m" by simp
  then have Npos: "0 < N" unfolding N_def by (simp only: of_nat_0_less_iff)
  have npos: "0 < n" by (simp add: n_def)
  have cap: "0 \<le> real ((j + 1) * (j + 1)) * (4 / N) \<and> real ((j + 1) * (j + 1)) * (4 / N) \<le> 1"
    if "j < m" for j
  proof -
    have "(j + 1) * (j + 1) \<le> Suc m * Suc m" using that by (intro mult_le_mono) simp_all
    then have "(j + 1) * (j + 1) * 4 \<le> 12 * Suc m * Suc m" by linarith
    then have "real ((j + 1) * (j + 1) * 4) \<le> N"
      unfolding N_def by (simp only: of_nat_le_iff)
    then have "real ((j + 1) * (j + 1)) * 4 \<le> N"
      by (simp only: of_nat_mult of_nat_numeral)
    then have "real ((j + 1) * (j + 1)) * 4 / N \<le> 1"
      using Npos by (simp only: divide_le_eq_1_pos)
    moreover have "0 \<le> real ((j + 1) * (j + 1)) * (4 / N)" using Npos by simp
    ultimately show ?thesis by simp
  qed
  have eq: "\<bar>(n - real t) * (2 / (3 * n))\<bar> \<le> 1" if "t < 2 * Suc m + 1" for t
  proof -
    have "real t \<le> 2 * n" using that unfolding n_def by linarith
    then have "\<bar>n - real t\<bar> \<le> n" by (simp add: abs_le_iff)
    then have "\<bar>n - real t\<bar> * 2 \<le> n * 2" by simp
    also have "n * 2 \<le> 3 * n" using npos by simp
    finally have "\<bar>n - real t\<bar> * 2 \<le> 3 * n" .
    moreover have "0 < 3 * n" using npos by simp
    ultimately have "\<bar>n - real t\<bar> * 2 / (3 * n) \<le> 1"
      by (simp only: divide_le_eq_1_pos)
    moreover have pos: "0 < 2 / (3 * n)" using npos by simp
    have "\<bar>(n - real t) * (2 / (3 * n))\<bar> = \<bar>n - real t\<bar> * (2 / (3 * n))"
      by (simp only: abs_mult abs_of_pos [OF pos])
    then have "\<bar>(n - real t) * (2 / (3 * n))\<bar> = \<bar>n - real t\<bar> * 2 / (3 * n)"
      by simp
    ultimately show ?thesis by (simp only:)
  qed
  have "(\<Sum>p<12 * Suc m * Suc m. if \<bar>fst (pix2zphi_ring (Suc m) p)\<bar> \<le> 1 then 0 else 1) = (0::real)"
    unfolding healpix_sum [of "\<lambda>zp. if \<bar>fst zp\<bar> \<le> 1 then 0 else 1" m]
      N_def [symmetric] n_def [symmetric] fst_conv
    using cap eq by (simp add: abs_le_iff)
  then show ?thesis using assms by (rule sum_indicator_zero)
qed

lemma healpix_latitude:
  assumes "p < 12 * Suc m * Suc m"
  shows "- 90 \<le> snd (pix2ang healpix (Suc m) p) \<and> snd (pix2ang healpix (Suc m) p) \<le> 90"
proof -
  obtain z phi where zp: "pix2zphi_ring (Suc m) p = (z, phi)" by (cases "pix2zphi_ring (Suc m) p")
  have z: "- 1 \<le> z" "z \<le> 1" using healpix_z_range [OF assms] by (simp_all add: zp abs_le_iff)
  have a: "0 \<le> arccos z" "arccos z \<le> pi" using arccos_bounded [OF z] by simp_all
  have "arccos z * 180 / pi \<le> 180"
    using a(2) by (simp add: field_simps)
  moreover have "0 \<le> arccos z * 180 / pi" using a(1) by simp
  ultimately show ?thesis by (simp add: healpix_def zp)
qed

lemma healpix_centre_vector:
  assumes "p < 12 * Suc m * Suc m"
  shows "centre_vector healpix (Suc m) p =
           (sin (arccos (fst (pix2zphi_ring (Suc m) p))) * cos (snd (pix2zphi_ring (Suc m) p)),
            sin (arccos (fst (pix2zphi_ring (Suc m) p))) * sin (snd (pix2zphi_ring (Suc m) p)),
            fst (pix2zphi_ring (Suc m) p))"
proof -
  obtain z phi where zp: "pix2zphi_ring (Suc m) p = (z, phi)" by (cases "pix2zphi_ring (Suc m) p")
  have z: "- 1 \<le> z" "z \<le> 1" using healpix_z_range [OF assms] by (simp_all add: zp abs_le_iff)
  have lon: "deg2rad (phi * 180 / pi) = phi" by (simp add: deg2rad_def)
  have lat: "deg2rad (90 - arccos z * 180 / pi) = pi / 2 - arccos z"
    by (simp add: deg2rad_def field_simps)
  have c: "cos (pi / 2 - arccos z) = sin (arccos z)" by (simp add: cos_diff)
  have s: "sin (pi / 2 - arccos z) = z" by (simp add: sin_diff cos_arccos [OF z])
  show ?thesis
    by (simp add: centre_vector_def healpix_def unit_vector_def zp lon lat c s)
qed

subsection \<open>HEALPix: the cell centres balance\<close>

text \<open>
  Every ring has an even number of equally spaced cells, so each cell has an opposite one
  on its ring and the horizontal components cancel; the rings are mirrored at the
  equator, so the vertical components cancel.
\<close>

lemma ring_sums_vanish:
  fixes c :: real
  assumes "0 < h"
  shows "(\<Sum>k<2 * h. cos ((real k + c) * (pi / real h))) = 0"
    and "(\<Sum>k<2 * h. sin ((real k + c) * (pi / real h))) = 0"
proof -
  have shift: "(real (k + h) + c) * (pi / real h) = (real k + c) * (pi / real h) + pi" for k
    using assms by (simp add: field_simps)
  have split: "(\<Sum>k<2 * h. g k) = (\<Sum>k<h. g k + g (k + h))" for g :: "nat \<Rightarrow> real"
  proof -
    have "(\<Sum>k<2 * h. g k) = (\<Sum>k = 0..<h. g k) + (\<Sum>k = h..<h + h. g k)"
      unfolding lessThan_atLeast0 mult_2
      by (rule sum.atLeastLessThan_concat [symmetric]) simp_all
    also have "(\<Sum>k = h..<h + h. g k) = (\<Sum>k = 0..<h. g (k + h))"
      using sum.shift_bounds_nat_ivl [of g 0 h h] by simp
    finally show ?thesis by (simp add: sum.distrib lessThan_atLeast0)
  qed
  show "(\<Sum>k<2 * h. cos ((real k + c) * (pi / real h))) = 0"
    unfolding split shift by simp
  show "(\<Sum>k<2 * h. sin ((real k + c) * (pi / real h))) = 0"
    unfolding split shift by simp
qed

lemma ring_weighted_sums_vanish:
  fixes a c :: real
  assumes "0 < h"
  shows "(\<Sum>k<2 * h. a * cos ((real k + c) * (pi / real h))) = 0"
    and "(\<Sum>k<2 * h. a * sin ((real k + c) * (pi / real h))) = 0"
  by (simp_all only: sum_distrib_left [symmetric] ring_sums_vanish [OF assms] mult_zero_right)

lemma sum_reversed:
  fixes G :: "nat \<Rightarrow> real"
  shows "(\<Sum>k<n. G (n - k)) = (\<Sum>k<n. G (Suc k))"
proof -
  have "(\<Sum>k<n. G (n - k)) = (\<Sum>k<n. G (Suc (n - Suc k)))"
    by (rule sum.cong) (simp_all add: Suc_diff_Suc)
  also have "\<dots> = (\<Sum>k<n. G (Suc k))"
    by (rule sum.nat_diff_reindex [of "\<lambda>i. G (Suc i)" n])
  finally show ?thesis .
qed

lemma cap_ring_sums_vanish:
  fixes a :: real
  shows "(\<Sum>k<4 * (j + 1). a * cos ((real k + 1 / 2) * (pi / 2) / real (j + 1))) = 0"
    and "(\<Sum>k<4 * (j + 1). a * sin ((real k + 1 / 2) * (pi / 2) / real (j + 1))) = 0"
    and "(\<Sum>k<4 * (j + 1). a * cos ((real (4 * (j + 1) - k) - 1 / 2) * (pi / 2) / real (j + 1))) = 0"
    and "(\<Sum>k<4 * (j + 1). a * sin ((real (4 * (j + 1) - k) - 1 / 2) * (pi / 2) / real (j + 1))) = 0"
proof -
  have idx: "4 * (j + 1) = 2 * (2 * (j + 1))" by simp
  have ang: "(real k + 1 / 2) * (pi / 2) / real (j + 1) = (real k + 1 / 2) * (pi / real (2 * (j + 1)))"
    for k by simp
  have pos: "0 < 2 * (j + 1)" by simp
  show n1: "(\<Sum>k<4 * (j + 1). a * cos ((real k + 1 / 2) * (pi / 2) / real (j + 1))) = 0"
    unfolding ang unfolding idx by (rule ring_weighted_sums_vanish(1) [OF pos])
  show n2: "(\<Sum>k<4 * (j + 1). a * sin ((real k + 1 / 2) * (pi / 2) / real (j + 1))) = 0"
    unfolding ang unfolding idx by (rule ring_weighted_sums_vanish(2) [OF pos])
  have up: "real (Suc k) - 1 / 2 = real k + 1 / 2" for k by simp
  show "(\<Sum>k<4 * (j + 1). a * cos ((real (4 * (j + 1) - k) - 1 / 2) * (pi / 2) / real (j + 1))) = 0"
    using sum_reversed [of "\<lambda>x. a * cos ((real x - 1 / 2) * (pi / 2) / real (j + 1))" "4 * (j + 1)"]
    by (simp only: up n1)
  show "(\<Sum>k<4 * (j + 1). a * sin ((real (4 * (j + 1) - k) - 1 / 2) * (pi / 2) / real (j + 1))) = 0"
    using sum_reversed [of "\<lambda>x. a * sin ((real x - 1 / 2) * (pi / 2) / real (j + 1))" "4 * (j + 1)"]
    by (simp only: up n2)
qed

lemma equator_ring_sums_vanish:
  fixes a c :: real
  shows "(\<Sum>k<4 * Suc m. a * cos ((real k + c) * (pi / (2 * real (Suc m))))) = 0"
    and "(\<Sum>k<4 * Suc m. a * sin ((real k + c) * (pi / (2 * real (Suc m))))) = 0"
proof -
  have idx: "4 * Suc m = 2 * (2 * Suc m)" by simp
  have den: "2 * real (Suc m) = real (2 * Suc m)" by simp
  have pos: "0 < 2 * Suc m" by simp
  show "(\<Sum>k<4 * Suc m. a * cos ((real k + c) * (pi / (2 * real (Suc m))))) = 0"
    unfolding den unfolding idx by (rule ring_weighted_sums_vanish(1) [OF pos])
  show "(\<Sum>k<4 * Suc m. a * sin ((real k + c) * (pi / (2 * real (Suc m))))) = 0"
    unfolding den unfolding idx by (rule ring_weighted_sums_vanish(2) [OF pos])
qed

lemma sum_descending:
  "(\<Sum>t<k. a - real t) = real k * a - real k * (real k - 1) / 2"
  by (induction k) (simp_all add: field_simps)

lemma equator_heights_cancel: "(\<Sum>t<2 * n + 1. real n - real t) = 0"
  unfolding sum_descending by (simp add: field_simps)

lemma healpix_centred: "centred healpix (Suc m)"
proof -
  let ?N = "12 * Suc m * Suc m"
  let ?zp = "pix2zphi_ring (Suc m)"
  have x: "(\<Sum>p<?N. fst (centre_vector healpix (Suc m) p)) = 0"
  proof -
    have "(\<Sum>p<?N. fst (centre_vector healpix (Suc m) p))
        = (\<Sum>p<?N. (\<lambda>zp. sin (arccos (fst zp)) * cos (snd zp)) (?zp p))"
      by (rule sum.cong) (simp_all add: healpix_centre_vector)
    also have "\<dots> = 0"
      by (simp only: healpix_sum [of "\<lambda>zp. sin (arccos (fst zp)) * cos (snd zp)" m]
          fst_conv snd_conv cap_ring_sums_vanish equator_ring_sums_vanish
          sum.neutral_const add_0_left)
    finally show ?thesis .
  qed
  have y: "(\<Sum>p<?N. fst (snd (centre_vector healpix (Suc m) p))) = 0"
  proof -
    have "(\<Sum>p<?N. fst (snd (centre_vector healpix (Suc m) p)))
        = (\<Sum>p<?N. (\<lambda>zp. sin (arccos (fst zp)) * sin (snd zp)) (?zp p))"
      by (rule sum.cong) (simp_all add: healpix_centre_vector)
    also have "\<dots> = 0"
      by (simp only: healpix_sum [of "\<lambda>zp. sin (arccos (fst zp)) * sin (snd zp)" m]
          fst_conv snd_conv cap_ring_sums_vanish equator_ring_sums_vanish
          sum.neutral_const add_0_left)
    finally show ?thesis .
  qed
  have z: "(\<Sum>p<?N. snd (snd (centre_vector healpix (Suc m) p))) = 0"
  proof -
    have "(\<Sum>p<?N. snd (snd (centre_vector healpix (Suc m) p))) = (\<Sum>p<?N. fst (?zp p))"
      by (rule sum.cong) (simp_all add: healpix_centre_vector)
    also have "\<dots> = 0"
    proof -
      define r where "r j = real ((j + 1) * (j + 1)) * (4 / real (12 * Suc m * Suc m))" for j
      define c where "c = 2 / (3 * real (Suc m))"
      have caps: "(\<Sum>j<m. \<Sum>k<4 * (j + 1). 1 - r j) + (\<Sum>j<m. \<Sum>k<4 * (j + 1). r j - 1) = 0"
        by (simp add: sum.distrib [symmetric] algebra_simps)
      have "(\<Sum>t<2 * Suc m + 1. \<Sum>k<4 * Suc m. (real (Suc m) - real t) * c)
          = real (4 * Suc m) * c * (\<Sum>t<2 * Suc m + 1. real (Suc m) - real t)"
        by (simp only: sum_constant card_lessThan sum_distrib_left mult.assoc mult.commute [of c])
      then have belt: "(\<Sum>t<2 * Suc m + 1. \<Sum>k<4 * Suc m. (real (Suc m) - real t) * c) = 0"
        by (simp only: equator_heights_cancel mult_zero_right)
      show ?thesis
        unfolding healpix_sum [of fst m] fst_conv r_def [symmetric] c_def [symmetric]
        using caps belt by simp
    qed
    finally show ?thesis .
  qed
  show ?thesis
    unfolding centred_def using x y z by (simp add: healpix_def)
qed

subsection \<open>The sky map of the example collaborators\<close>

lemma dipole_map_healpix_great_circle:
  assumes "- 90 \<le> b0" "b0 \<le> 90"
  shows "dipole_map healpix great_circle (Suc m) A l0 b0 =
           Inr (map (\<lambda>p. A * cos (central_angle (l0, b0) (pix2ang healpix (Suc m) p)))
                  [0..<nside2npix healpix (Suc m)])"
proof (rule dipole_map_InrI)
  show "SkyCoord great_circle l0 b0 = Inr (l0, b0)"
    using assms by (rule great_circle_SkyCoord)
next
  fix p assume "p < nside2npix healpix (Suc m)"
  then have "p < 12 * Suc m * Suc m" by (simp add: healpix_def)
  from healpix_latitude [OF this]
  show "SkyCoord great_circle (fst (pix2ang healpix (Suc m) p)) (snd (pix2ang healpix (Suc m) p))
      = Inr (pix2ang healpix (Suc m) p)"
    by (simp add: great_circle_SkyCoord)
next
  fix p
  show "separation great_circle (l0, b0) (pix2ang healpix (Suc m) p)
      = Inr (central_angle (l0, b0) (pix2ang healpix (Suc m) p))"
    by (simp add: great_circle_def)
qed

lemma healpix_equator_pixel: "pix2ang healpix 32 6080 = (45 / 32, 0)"
proof -
  have "pix2zphi_ring (Suc 31) (2 * 31 * (31 + 1) + (32 * (4 * Suc 31) + 0))
      = ((real (Suc 31) - real (32::nat)) * (2 / (3 * real (Suc 31))),
         (real (0::nat) + (if odd (32::nat) then 0 else 1 / 2)) * (pi / (2 * real (Suc 31))))"
    by (rule ring_equator) simp_all
  then have "pix2zphi_ring 32 6080 = (0, pi / 128)" by simp
  then show ?thesis by (simp add: healpix_def)
qed

section \<open>The distance-modulus function\<close>

text \<open>
  Claim C1. For a redshift in the background model's domain and two directions the
  geometry accepts, \<^verbatim>\<open>dipole_mu_physical\<close> returns \<open>mu_cosmo(z) + A * cos(theta)\<close>, where
  \<open>mu_cosmo(z)\<close> is what the background model returns at \<open>z\<close> and \<open>theta\<close> is the
  separation, in radians, that the geometry library reports between the target and the
  dipole direction. (That the reported angle lies in \<open>[0, \<pi>]\<close> is the library's contract;
  the function uses the angle only through its cosine.)
\<close>

theorem dipole_mu_physical_formula:
  assumes "cosmo z = Inr mu_cosmo"
    and "SkyCoord geo l0 b0 = Inr dipole_coord"
    and "SkyCoord geo l_sn b_sn = Inr sn_coords"
    and "separation geo sn_coords dipole_coord = Inr theta"
  shows "dipole_mu_physical cosmo geo z A l0 b0 l_sn b_sn = Inr (mu_cosmo + A * cos theta)"
  using assms by (simp add: dipole_mu_physical_def)

theorem dipole_mu_physical_formula_witness:
  "hubble_flow 0.021 = Inr (5 * log 10 (hubble_distance * 0.021 * (1 + 0.021)) + 25)
   \<and> SkyCoord great_circle l0_fit b0_fit = Inr (275, 56)
   \<and> SkyCoord great_circle 95 0 = Inr (95, 0)
   \<and> separation great_circle (95, 0) (275, 56) = Inr (arccos (- cos (deg2rad 56)))
   \<and> dipole_mu_physical hubble_flow great_circle 0.021 A_fit l0_fit b0_fit 95 0
       = Inr (5 * log 10 (hubble_distance * 0.021 * (1 + 0.021)) + 25
              + 0.05 * cos (arccos (- cos (deg2rad 56))))"
proof -
  have h1: "hubble_flow 0.021 = Inr (5 * log 10 (hubble_distance * 0.021 * (1 + 0.021)) + 25)"
    by (rule hubble_flow_positive) simp
  have h2: "SkyCoord great_circle l0_fit b0_fit = Inr (275, 56)"
    by (simp add: great_circle_def l0_fit_def b0_fit_def)
  have h3: "SkyCoord great_circle 95 0 = Inr (95, 0)"
    by (simp add: great_circle_def)
  have "deg2rad 95 - deg2rad 275 = - pi" by (simp add: deg2rad_def)
  then have h4: "separation great_circle (95, 0) (275, 56) = Inr (arccos (- cos (deg2rad 56)))"
    by (simp add: great_circle_def central_angle_def) (simp add: deg2rad_def)
  show ?thesis
    using h1 h2 h3 h4
      dipole_mu_physical_formula [where cosmo = hubble_flow and geo = great_circle and A = A_fit,
        OF h1 h2 h3 h4]
    by (simp add: A_fit_def)
qed

text \<open>
  Claim C4. When the target direction is the dipole direction and the geometry reports
  separation 0 for it, the result is \<open>mu_cosmo(z) + A\<close>. The witness is the
  specification's scenario: \<open>A = 0.05\<close> and the dipole at \<open>(l, b) = (275, 56)\<close> degrees.
\<close>

theorem dipole_mu_physical_at_dipole:
  assumes "cosmo z = Inr mu_cosmo"
    and "SkyCoord geo l0 b0 = Inr d"
    and "separation geo d d = Inr 0"
  shows "dipole_mu_physical cosmo geo z A l0 b0 l0 b0 = Inr (mu_cosmo + A)"
  using assms by (simp add: dipole_mu_physical_def)

theorem dipole_mu_physical_at_dipole_witness:
  "hubble_flow 0.021 = Inr (5 * log 10 (hubble_distance * 0.021 * (1 + 0.021)) + 25)
   \<and> SkyCoord great_circle 275 56 = Inr (275, 56)
   \<and> separation great_circle (275, 56) (275, 56) = Inr 0
   \<and> dipole_mu_physical hubble_flow great_circle 0.021 0.05 275 56 275 56
       = Inr (5 * log 10 (hubble_distance * 0.021 * (1 + 0.021)) + 25 + 0.05)"
proof -
  have h1: "hubble_flow 0.021 = Inr (5 * log 10 (hubble_distance * 0.021 * (1 + 0.021)) + 25)"
    by (rule hubble_flow_positive) simp
  have h2: "SkyCoord great_circle 275 56 = Inr (275, 56)"
    by (simp add: great_circle_def)
  have h3: "separation great_circle (275, 56) (275, 56) = Inr 0"
    by (rule great_circle_separation_self)
  show ?thesis
    using h1 h2 h3
      dipole_mu_physical_at_dipole [where cosmo = hubble_flow and geo = great_circle
        and A = "0.05", OF h1 h2 h3]
    by simp
qed

text \<open>
  Claim C6. Sign symmetry: whenever the evaluation with amplitude \<open>A\<close> succeeds, so does
  the one with \<open>- A\<close>, and the two deviations from the background modulus are opposite.
\<close>

theorem dipole_mu_physical_sign_symmetry:
  assumes "cosmo z = Inr mu_cosmo"
    and "dipole_mu_physical cosmo geo z A l0 b0 l_sn b_sn = Inr p"
  shows "\<exists>q. dipole_mu_physical cosmo geo z (- A) l0 b0 l_sn b_sn = Inr q
             \<and> p - mu_cosmo = - (q - mu_cosmo)"
  using assms by (auto simp: dipole_mu_physical_def split: sum.splits)

theorem dipole_mu_physical_sign_symmetry_witness:
  "hubble_flow 0.021 = Inr (5 * log 10 (hubble_distance * 0.021 * (1 + 0.021)) + 25)
   \<and> dipole_mu_physical hubble_flow great_circle 0.021 0.05 275 56 275 56
       = Inr (5 * log 10 (hubble_distance * 0.021 * (1 + 0.021)) + 25 + 0.05)
   \<and> dipole_mu_physical hubble_flow great_circle 0.021 (- 0.05) 275 56 275 56
       = Inr (5 * log 10 (hubble_distance * 0.021 * (1 + 0.021)) + 25 - 0.05)"
proof -
  let ?mc = "5 * log 10 (hubble_distance * 0.021 * (1 + 0.021)) + 25"
  have h1: "hubble_flow 0.021 = Inr ?mc"
    by (rule hubble_flow_positive) simp
  have s: "separation great_circle (275, 56) (275, 56) = Inr 0"
    by (rule great_circle_separation_self)
  have h2: "dipole_mu_physical hubble_flow great_circle 0.021 0.05 275 56 275 56 = Inr (?mc + 0.05)"
    using h1 s by (simp add: dipole_mu_physical_def great_circle_SkyCoord)
  from dipole_mu_physical_sign_symmetry [OF h1 h2]
  obtain q where q: "dipole_mu_physical hubble_flow great_circle 0.021 (- 0.05) 275 56 275 56 = Inr q"
    and e: "?mc + 0.05 - ?mc = - (q - ?mc)" by blast
  from e have "q = ?mc - 0.05" by simp
  with h1 h2 q show ?thesis by simp
qed

text \<open>
  Claim C7. Monotonicity in redshift: let \<open>V\<close> be the valid redshifts, and let the
  background model be strictly increasing on the redshifts of \<open>V\<close> that it accepts. For
  \<open>z1 < z2\<close> in \<open>V\<close>, \<open>z2\<close> accepted, with amplitude and directions fixed, the evaluation at
  \<open>z2\<close> succeeds whenever the one at \<open>z1\<close> does, and its result is strictly larger. The
  witness takes the positive redshifts for \<open>V\<close>.
\<close>

theorem dipole_mu_physical_increasing:
  assumes mono: "\<And>a b ma mb. a \<in> V \<Longrightarrow> b \<in> V \<Longrightarrow> a < b \<Longrightarrow> cosmo a = Inr ma
                   \<Longrightarrow> cosmo b = Inr mb \<Longrightarrow> ma < mb"
    and "z1 \<in> V" and "z2 \<in> V" and "z1 < z2"
    and "cosmo z2 = Inr m2"
    and "dipole_mu_physical cosmo geo z1 A l0 b0 l_sn b_sn = Inr p1"
  shows "\<exists>p2. dipole_mu_physical cosmo geo z2 A l0 b0 l_sn b_sn = Inr p2 \<and> p1 < p2"
proof -
  from assms(6) obtain m1 d s a where m1: "cosmo z1 = Inr m1"
    and g: "SkyCoord geo l0 b0 = Inr d" "SkyCoord geo l_sn b_sn = Inr s"
      "separation geo s d = Inr a"
    and p1: "p1 = m1 + A * cos a"
    by (auto simp: dipole_mu_physical_def split: sum.splits)
  have "m1 < m2" using mono [OF assms(2,3,4) m1 assms(5)] .
  moreover have "dipole_mu_physical cosmo geo z2 A l0 b0 l_sn b_sn = Inr (m2 + A * cos a)"
    using assms(5) g by (simp add: dipole_mu_physical_def)
  ultimately show ?thesis using p1 by simp
qed

theorem dipole_mu_physical_increasing_witness:
  "(0.015::real) \<in> {0<..} \<and> (0.021::real) \<in> {0<..} \<and> (0.015::real) < 0.021
   \<and> hubble_flow 0.021 = Inr (5 * log 10 (hubble_distance * 0.021 * (1 + 0.021)) + 25)
   \<and> dipole_mu_physical hubble_flow great_circle 0.015 0.05 275 56 275 56
       = Inr (5 * log 10 (hubble_distance * 0.015 * (1 + 0.015)) + 25 + 0.05)
   \<and> dipole_mu_physical hubble_flow great_circle 0.021 0.05 275 56 275 56
       = Inr (5 * log 10 (hubble_distance * 0.021 * (1 + 0.021)) + 25 + 0.05)
   \<and> 5 * log 10 (hubble_distance * 0.015 * (1 + 0.015)) + 25 + 0.05
       < 5 * log 10 (hubble_distance * 0.021 * (1 + 0.021)) + 25 + 0.05"
proof -
  let ?m1 = "5 * log 10 (hubble_distance * 0.015 * (1 + 0.015)) + 25"
  let ?m2 = "5 * log 10 (hubble_distance * 0.021 * (1 + 0.021)) + 25"
  have v1: "(0.015::real) \<in> {0<..}" and v2: "(0.021::real) \<in> {0<..}"
    and z12: "(0.015::real) < 0.021" by simp_all
  have mono: "ma < mb" if "a \<in> {0<..}" "b \<in> {0<..}" "a < b" "hubble_flow a = Inr ma"
    "hubble_flow b = Inr mb" for a b ma mb
    using that by (intro hubble_flow_increasing [of a b ma mb]) simp_all
  have h1: "hubble_flow 0.015 = Inr ?m1" by (rule hubble_flow_positive) simp
  have h2: "hubble_flow 0.021 = Inr ?m2" by (rule hubble_flow_positive) simp
  have s: "separation great_circle (275, 56) (275, 56) = Inr 0"
    by (rule great_circle_separation_self)
  have p1: "dipole_mu_physical hubble_flow great_circle 0.015 0.05 275 56 275 56 = Inr (?m1 + 0.05)"
    using h1 s by (simp add: dipole_mu_physical_def great_circle_SkyCoord)
  have p2: "dipole_mu_physical hubble_flow great_circle 0.021 0.05 275 56 275 56 = Inr (?m2 + 0.05)"
    using h2 s by (simp add: dipole_mu_physical_def great_circle_SkyCoord)
  have "\<exists>q. dipole_mu_physical hubble_flow great_circle 0.021 0.05 275 56 275 56 = Inr q
      \<and> ?m1 + 0.05 < q"
    by (rule dipole_mu_physical_increasing [where cosmo = hubble_flow and V = "{0<..}",
          OF _ v1 v2 z12 h2 p1])
      (rule mono)
  then obtain q where "dipole_mu_physical hubble_flow great_circle 0.021 0.05 275 56 275 56 = Inr q"
    and "?m1 + 0.05 < q" by blast
  with p2 have "?m1 + 0.05 < ?m2 + 0.05" by simp
  with v1 v2 z12 h2 p1 p2 show ?thesis by blast
qed

section \<open>Negative redshifts\<close>

text \<open>
  Claim C2 says that a negative redshift fails with \<open>InvalidInput\<close> before the background
  model is asked. The function has no check: its first statement hands \<open>z\<close> to the
  background model. With a background model that accepts \<open>z = -1/2\<close> the evaluation
  succeeds.
\<close>

theorem negative_redshift_reaches_background:
  "- (1 / 2) < (0::real)
   \<and> dipole_mu_physical hubble_flow great_circle (- (1 / 2)) 0.05 275 56 275 56
       = Inr (5 * log 10 \<bar>hubble_distance * (- (1 / 2)) * (1 + - (1 / 2))\<bar> + 25 + 0.05)
   \<and> dipole_mu_physical hubble_flow great_circle (- (1 / 2)) 0.05 275 56 275 56
       \<noteq> Inl InvalidInput"
proof -
  have "separation great_circle (275, 56) (275, 56) = Inr 0"
    by (rule great_circle_separation_self)
  then have "dipole_mu_physical hubble_flow great_circle (- (1 / 2)) 0.05 275 56 275 56
       = Inr (5 * log 10 \<bar>hubble_distance * (- (1 / 2)) * (1 + - (1 / 2))\<bar> + 25 + 0.05)"
    by (simp add: dipole_mu_physical_def hubble_flow_def great_circle_SkyCoord)
  then show ?thesis by simp
qed

text \<open>
  Claim C2, amended. For a negative redshift the outcome is the background model's: if it
  fails at \<open>z\<close> with a condition \<open>e\<close>, the evaluation fails with \<open>e\<close> unchanged (with
  \<open>InvalidInput\<close> only if that is what the library raises); if it returns a modulus, the
  evaluation goes on as for any other redshift.
\<close>

theorem negative_redshift_passed_on:
  "z < 0 \<longrightarrow>
     (cosmo z = Inl e \<longrightarrow> dipole_mu_physical cosmo geo z A l0 b0 l_sn b_sn = Inl e)
     \<and> (cosmo z = Inr mu_cosmo \<longrightarrow> SkyCoord geo l0 b0 = Inr dipole_coord \<longrightarrow>
          SkyCoord geo l_sn b_sn = Inr sn_coords \<longrightarrow>
          separation geo sn_coords dipole_coord = Inr theta \<longrightarrow>
          dipole_mu_physical cosmo geo z A l0 b0 l_sn b_sn = Inr (mu_cosmo + A * cos theta))"
  by (simp add: dipole_mu_physical_def)

theorem negative_redshift_passed_on_witness:
  "- 1 < (0::real)
   \<and> hubble_flow (- 1) = Inl (CollaboratorError ''zero luminosity distance'')
   \<and> dipole_mu_physical hubble_flow great_circle (- 1) 0.05 275 56 275 56
       = Inl (CollaboratorError ''zero luminosity distance'')
   \<and> - (1 / 2) < (0::real)
   \<and> hubble_flow (- (1 / 2)) = Inr (5 * log 10 \<bar>hubble_distance * (- (1 / 2)) * (1 + - (1 / 2))\<bar> + 25)
   \<and> SkyCoord great_circle 275 56 = Inr (275, 56)
   \<and> separation great_circle (275, 56) (275, 56) = Inr 0
   \<and> dipole_mu_physical hubble_flow great_circle (- (1 / 2)) 0.05 275 56 275 56
       = Inr (5 * log 10 \<bar>hubble_distance * (- (1 / 2)) * (1 + - (1 / 2))\<bar> + 25 + 0.05 * cos 0)"
proof -
  let ?m = "5 * log 10 \<bar>hubble_distance * (- (1 / 2)) * (1 + - (1 / 2))\<bar> + 25"
  have z1: "- 1 < (0::real)" and z2: "- (1 / 2) < (0::real)" by simp_all
  have h1: "hubble_flow (- 1) = Inl (CollaboratorError ''zero luminosity distance'')"
    by (simp add: hubble_flow_def)
  have h2: "hubble_flow (- (1 / 2)) = Inr ?m"
    by (simp add: hubble_flow_def)
  have d: "SkyCoord great_circle 275 56 = Inr (275, 56)"
    by (simp add: great_circle_SkyCoord)
  have s: "separation great_circle (275, 56) (275, 56) = Inr 0"
    by (rule great_circle_separation_self)
  note passed = negative_redshift_passed_on [where cosmo = hubble_flow and geo = great_circle
      and A = "0.05" and ?l0.0 = 275 and ?b0.0 = 56 and l_sn = 275 and b_sn = 56]
  have 1: "dipole_mu_physical hubble_flow great_circle (- 1) 0.05 275 56 275 56
       = Inl (CollaboratorError ''zero luminosity distance'')"
    using passed [where z = "- 1" and e = "CollaboratorError ''zero luminosity distance''"] z1 h1
    by blast
  have 2: "dipole_mu_physical hubble_flow great_circle (- (1 / 2)) 0.05 275 56 275 56
       = Inr (?m + 0.05 * cos 0)"
    using passed [where z = "- (1 / 2)" and mu_cosmo = ?m and dipole_coord = "(275, 56)"
        and sn_coords = "(275, 56)" and theta = 0] z2 h2 d s
    by blast
  from z1 h1 1 z2 h2 d s 2 show ?thesis by blast
qed

section \<open>The sky map\<close>

text \<open>
  Claim C3. When the geometry accepts the dipole direction and every cell centre, the map
  holds one value per cell of the tessellation, in cell order, and the value of cell \<open>p\<close>
  is \<open>A * cos(theta p)\<close> alone, \<open>theta p\<close> being the separation the geometry reports
  between the dipole direction and the centre of cell \<open>p\<close>. No background modulus enters:
  the map is the deviation field. The witness is the notebook's own map (\<open>NSIDE = 32\<close>,
  \<open>A = 0.05\<close>, dipole at \<open>(275, 56)\<close>).
\<close>

theorem dipole_map_values:
  assumes "SkyCoord geo l0 b0 = Inr d"
    and "\<And>p. p < nside2npix hp NSIDE \<Longrightarrow>
           SkyCoord geo (fst (pix2ang hp NSIDE p)) (snd (pix2ang hp NSIDE p)) = Inr (c p)"
    and "\<And>p. p < nside2npix hp NSIDE \<Longrightarrow> separation geo d (c p) = Inr (theta p)"
  shows "dipole_map hp geo NSIDE A l0 b0 =
           Inr (map (\<lambda>p. A * cos (theta p)) [0..<nside2npix hp NSIDE])"
  using assms by (rule dipole_map_InrI)

theorem dipole_map_values_witness:
  "SkyCoord great_circle l_dipole_deg_demo b_dipole_deg_demo = Inr (275, 56)
   \<and> nside2npix healpix NSIDE_demo = 12288
   \<and> dipole_map healpix great_circle NSIDE_demo amp_dipole_demo l_dipole_deg_demo b_dipole_deg_demo
       = Inr (map (\<lambda>p. 0.05 * cos (central_angle (275, 56) (pix2ang healpix 32 p))) [0..<12288])"
proof -
  have n: "NSIDE_demo = Suc 31" by (simp add: NSIDE_demo_def)
  have N: "nside2npix healpix (Suc 31) = 12288" by (simp add: healpix_def)
  have d: "SkyCoord great_circle 275 56 = Inr (275, 56)" by (simp add: great_circle_SkyCoord)
  have c: "SkyCoord great_circle (fst (pix2ang healpix (Suc 31) p)) (snd (pix2ang healpix (Suc 31) p))
      = Inr (pix2ang healpix (Suc 31) p)" if "p < nside2npix healpix (Suc 31)" for p
  proof -
    from that have "p < 12 * Suc 31 * Suc 31" by (simp add: healpix_def)
    from healpix_latitude [OF this] show ?thesis by (simp add: great_circle_SkyCoord)
  qed
  have t: "separation great_circle (275, 56) (pix2ang healpix (Suc 31) p)
      = Inr (central_angle (275, 56) (pix2ang healpix (Suc 31) p))" for p
    by (simp add: great_circle_def)
  have "dipole_map healpix great_circle (Suc 31) 0.05 275 56 =
      Inr (map (\<lambda>p. 0.05 * cos (central_angle (275, 56) (pix2ang healpix (Suc 31) p)))
             [0..<nside2npix healpix (Suc 31)])"
    by (rule dipole_map_values [where c = "pix2ang healpix (Suc 31)", OF d c t])
  then show ?thesis
    using d N
    by (simp add: n amp_dipole_demo_def l_dipole_deg_demo_def b_dipole_deg_demo_def)
qed

text \<open>
  Claim C5. A cell whose centre the geometry reports at separation \<open>\<pi>\<close> from the dipole
  direction has the map value \<open>- A\<close>, and a target at separation \<open>\<pi>\<close> gets
  \<open>mu_cosmo(z) - A\<close> from \<^verbatim>\<open>dipole_mu_physical\<close>: the antipode is an ordinary argument of the
  cosine, with no case of its own in either computation.
\<close>

theorem dipole_term_at_antipode:
  "(dipole_map hp geo NSIDE A l0 b0 = Inr vs \<longrightarrow> p < nside2npix hp NSIDE \<longrightarrow>
      SkyCoord geo l0 b0 = Inr d \<longrightarrow>
      SkyCoord geo (fst (pix2ang hp NSIDE p)) (snd (pix2ang hp NSIDE p)) = Inr c \<longrightarrow>
      separation geo d c = Inr pi \<longrightarrow> vs ! p = - A)
   \<and> (cosmo z = Inr mu_cosmo \<longrightarrow> SkyCoord geo l0 b0 = Inr d \<longrightarrow>
        SkyCoord geo l_sn b_sn = Inr sn_coords \<longrightarrow> separation geo sn_coords d = Inr pi \<longrightarrow>
        dipole_mu_physical cosmo geo z A l0 b0 l_sn b_sn = Inr (mu_cosmo - A))"
proof (intro conjI impI)
  assume m: "dipole_map hp geo NSIDE A l0 b0 = Inr vs" and p: "p < nside2npix hp NSIDE"
    and d: "SkyCoord geo l0 b0 = Inr d"
    and c: "SkyCoord geo (fst (pix2ang hp NSIDE p)) (snd (pix2ang hp NSIDE p)) = Inr c"
    and s: "separation geo d c = Inr pi"
  from dipole_map_InrD [OF m] obtain d' cs thetas where
    d': "SkyCoord geo l0 b0 = Inr d'" and len: "length thetas = nside2npix hp NSIDE"
    and px: "\<forall>p<nside2npix hp NSIDE.
        SkyCoord geo (fst (pix2ang hp NSIDE p)) (snd (pix2ang hp NSIDE p)) = Inr (cs ! p)
        \<and> separation geo d' (cs ! p) = Inr (thetas ! p)"
    and vs: "vs = map (\<lambda>a. A * cos a) thetas"
    by blast
  from d d' have dd: "d' = d" by simp
  from px p have cp: "SkyCoord geo (fst (pix2ang hp NSIDE p)) (snd (pix2ang hp NSIDE p)) = Inr (cs ! p)"
    and sp: "separation geo d' (cs ! p) = Inr (thetas ! p)" by blast+
  from cp c have "cs ! p = c" by simp
  with sp s dd have "thetas ! p = pi" by simp
  then show "vs ! p = - A" using vs len p by simp
next
  assume "cosmo z = Inr mu_cosmo" "SkyCoord geo l0 b0 = Inr d"
    "SkyCoord geo l_sn b_sn = Inr sn_coords" "separation geo sn_coords d = Inr pi"
  then show "dipole_mu_physical cosmo geo z A l0 b0 l_sn b_sn = Inr (mu_cosmo - A)"
    by (simp add: dipole_mu_physical_def)
qed

theorem dipole_term_at_antipode_witness:
  "dipole_map healpix great_circle 32 0.05 (180 + 45 / 32) 0
      = Inr (map (\<lambda>p. 0.05 * cos (central_angle (180 + 45 / 32, 0) (pix2ang healpix 32 p)))
               [0..<12288])
   \<and> (6080::nat) < nside2npix healpix 32
   \<and> SkyCoord great_circle (180 + 45 / 32) 0 = Inr (180 + 45 / 32, 0)
   \<and> SkyCoord great_circle (fst (pix2ang healpix 32 6080)) (snd (pix2ang healpix 32 6080))
       = Inr (45 / 32, 0)
   \<and> separation great_circle (180 + 45 / 32, 0) (45 / 32, 0) = Inr pi
   \<and> map (\<lambda>p. 0.05 * cos (central_angle (180 + 45 / 32, 0) (pix2ang healpix 32 p))) [0..<12288]
        ! 6080 = - 0.05
   \<and> hubble_flow 0.021 = Inr (5 * log 10 (hubble_distance * 0.021 * (1 + 0.021)) + 25)
   \<and> SkyCoord great_circle (275 + 180) (- 56) = Inr (275 + 180, - 56)
   \<and> SkyCoord great_circle 275 56 = Inr (275, 56)
   \<and> separation great_circle (275 + 180, - 56) (275, 56) = Inr pi
   \<and> dipole_mu_physical hubble_flow great_circle 0.021 0.05 275 56 (275 + 180) (- 56)
       = Inr (5 * log 10 (hubble_distance * 0.021 * (1 + 0.021)) + 25 - 0.05)"
proof -
  let ?vs = "map (\<lambda>p. 0.05 * cos (central_angle (180 + 45 / 32, 0) (pix2ang healpix 32 p)))
               [0..<12288]"
  have N: "nside2npix healpix (Suc 31) = 12288" by (simp add: healpix_def)
  have "dipole_map healpix great_circle (Suc 31) 0.05 (180 + 45 / 32) 0
      = Inr (map (\<lambda>p. 0.05 * cos (central_angle (180 + 45 / 32, 0) (pix2ang healpix (Suc 31) p)))
               [0..<nside2npix healpix (Suc 31)])"
    by (rule dipole_map_healpix_great_circle) simp_all
  then have m: "dipole_map healpix great_circle 32 0.05 (180 + 45 / 32) 0 = Inr ?vs"
    unfolding N by simp
  have p: "(6080::nat) < nside2npix healpix 32" by (simp add: healpix_def)
  have d: "SkyCoord great_circle (180 + 45 / 32) 0 = Inr (180 + 45 / 32, 0)"
    by (simp add: great_circle_SkyCoord)
  have c: "SkyCoord great_circle (fst (pix2ang healpix 32 6080)) (snd (pix2ang healpix 32 6080))
      = Inr (45 / 32, 0)"
    by (simp add: healpix_equator_pixel great_circle_SkyCoord)
  have s: "separation great_circle (180 + 45 / 32, 0) (45 / 32, 0) = Inr pi"
    using great_circle_antipode [of "45 / 32" 0] by (simp add: great_circle_def add.commute)
  have h1: "hubble_flow 0.021 = Inr (5 * log 10 (hubble_distance * 0.021 * (1 + 0.021)) + 25)"
    by (rule hubble_flow_positive) simp
  have h2: "SkyCoord great_circle (275 + 180) (- 56) = Inr (275 + 180, - 56)"
    by (simp add: great_circle_SkyCoord)
  have h3: "SkyCoord great_circle 275 56 = Inr (275, 56)"
    by (simp add: great_circle_SkyCoord)
  have h4: "separation great_circle (275 + 180, - 56) (275, 56) = Inr pi"
    using great_circle_antipode [of 275 56] by (simp add: great_circle_def)
  note ant = dipole_term_at_antipode [where hp = healpix and geo = great_circle and NSIDE = 32
      and A = "0.05" and vs = ?vs and p = 6080 and c = "(45 / 32, 0)" and cosmo = hubble_flow
      and z = "0.021" and l_sn = "275 + 180" and b_sn = "- 56"]
  have 1: "?vs ! 6080 = - 0.05"
    using ant [where ?l0.0 = "180 + 45 / 32" and ?b0.0 = 0 and d = "(180 + 45 / 32, 0)"] m p d c s
    by blast
  have 2: "dipole_mu_physical hubble_flow great_circle 0.021 0.05 275 56 (275 + 180) (- 56)
       = Inr (5 * log 10 (hubble_distance * 0.021 * (1 + 0.021)) + 25 - 0.05)"
    using ant [where ?l0.0 = 275 and ?b0.0 = 56 and d = "(275, 56)"
        and mu_cosmo = "5 * log 10 (hubble_distance * 0.021 * (1 + 0.021)) + 25"
        and sn_coords = "(275 + 180, - 56)"] h1 h2 h3 h4
    by blast
  from m p d c s 1 h1 h2 h3 h4 2 show ?thesis by blast
qed

text \<open>
  Claim C9. Zero mean: when the geometry measures great-circle angles and the cell centres
  of the tessellation balance, the values of the map add up to zero, and so does their
  plain mean, for every amplitude and every dipole direction. The witness is the
  notebook's map on the HEALPix cells at \<open>NSIDE = 32\<close>.
\<close>

theorem dipole_map_zero_mean:
  assumes geo: "great_circle_angle geo"
    and hp: "centred hp NSIDE"
    and pos: "0 < nside2npix hp NSIDE"
    and m: "dipole_map hp geo NSIDE A l0 b0 = Inr vs"
  shows "sum_list vs = 0 \<and> sum_list vs / real (length vs) = 0"
proof -
  let ?N = "nside2npix hp NSIDE"
  let ?u = "unit_vector l0 b0"
  from dipole_map_InrD [OF m] obtain d cs thetas where
    d: "SkyCoord geo l0 b0 = Inr d" and len: "length thetas = ?N"
    and px: "\<forall>p<?N.
        SkyCoord geo (fst (pix2ang hp NSIDE p)) (snd (pix2ang hp NSIDE p)) = Inr (cs ! p)
        \<and> separation geo d (cs ! p) = Inr (thetas ! p)"
    and vs: "vs = map (\<lambda>a. A * cos a) thetas"
    by blast
  have cos_eq: "cos (thetas ! p) = dot ?u (centre_vector hp NSIDE p)" if "p < ?N" for p
    using geo d px that unfolding great_circle_angle_def centre_vector_def by blast
  have "sum_list vs = (\<Sum>p<?N. A * cos (thetas ! p))"
    unfolding vs using len
    by (simp add: sum_list_sum_nth lessThan_atLeast0)
  also have "\<dots> = (\<Sum>p<?N. A * dot ?u (centre_vector hp NSIDE p))"
    by (rule sum.cong) (simp_all add: cos_eq)
  also have "\<dots> = A * (fst ?u * (\<Sum>p<?N. fst (centre_vector hp NSIDE p))
      + fst (snd ?u) * (\<Sum>p<?N. fst (snd (centre_vector hp NSIDE p)))
      + snd (snd ?u) * (\<Sum>p<?N. snd (snd (centre_vector hp NSIDE p))))"
    by (simp add: dot_def sum_distrib_left sum.distrib algebra_simps)
  also have "\<dots> = 0" using hp by (simp add: centred_def)
  finally show ?thesis by simp
qed

theorem dipole_map_zero_mean_witness:
  "great_circle_angle great_circle \<and> centred healpix NSIDE_demo
   \<and> 0 < nside2npix healpix NSIDE_demo
   \<and> dipole_map healpix great_circle NSIDE_demo amp_dipole_demo l_dipole_deg_demo b_dipole_deg_demo
       = Inr (map (\<lambda>p. 0.05 * cos (central_angle (275, 56) (pix2ang healpix 32 p))) [0..<12288])
   \<and> sum_list (map (\<lambda>p. 0.05 * cos (central_angle (275, 56) (pix2ang healpix 32 p))) [0..<12288])
       / real (length (map (\<lambda>p. 0.05 * cos (central_angle (275, 56) (pix2ang healpix 32 p)))
                         [0..<12288])) = 0"
proof -
  let ?vs = "map (\<lambda>p. 0.05 * cos (central_angle (275, 56) (pix2ang healpix 32 p))) [0..<12288]"
  have n: "NSIDE_demo = Suc 31" by (simp add: NSIDE_demo_def)
  have N: "nside2npix healpix (Suc 31) = 12288" by (simp add: healpix_def)
  have g: "great_circle_angle great_circle" by (rule great_circle_great_circle_angle)
  have c: "centred healpix NSIDE_demo" unfolding n by (rule healpix_centred)
  have p: "0 < nside2npix healpix NSIDE_demo" unfolding n N by simp
  have "dipole_map healpix great_circle (Suc 31) 0.05 275 56
      = Inr (map (\<lambda>p. 0.05 * cos (central_angle (275, 56) (pix2ang healpix (Suc 31) p)))
               [0..<nside2npix healpix (Suc 31)])"
    by (rule dipole_map_healpix_great_circle) simp_all
  then have m: "dipole_map healpix great_circle NSIDE_demo amp_dipole_demo l_dipole_deg_demo
      b_dipole_deg_demo = Inr ?vs"
    unfolding N by (simp add: n amp_dipole_demo_def l_dipole_deg_demo_def b_dipole_deg_demo_def)
  from dipole_map_zero_mean [OF g c p m] have "sum_list ?vs / real (length ?vs) = 0" by blast
  with g c p m show ?thesis by blast
qed

text \<open>
  Claim C10. Bounded deviation: a result of \<^verbatim>\<open>dipole_mu_physical\<close> differs from the
  background modulus by at most \<open>|A|\<close>, and every value of the sky map lies in
  \<open>[-|A|, |A|]\<close>.
\<close>

theorem dipole_term_bounded:
  "(cosmo z = Inr mu_cosmo \<longrightarrow> dipole_mu_physical cosmo geo z A l0 b0 l_sn b_sn = Inr mu \<longrightarrow>
      \<bar>mu - mu_cosmo\<bar> \<le> \<bar>A\<bar>)
   \<and> (dipole_map hp geo NSIDE A l0 b0 = Inr vs \<longrightarrow> (\<forall>v\<in>set vs. - \<bar>A\<bar> \<le> v \<and> v \<le> \<bar>A\<bar>))"
proof (intro conjI impI)
  have b: "\<bar>A * cos a\<bar> \<le> \<bar>A\<bar>" for a
  proof -
    have "\<bar>A * cos a\<bar> = \<bar>A\<bar> * \<bar>cos a\<bar>" by (rule abs_mult)
    also have "\<dots> \<le> \<bar>A\<bar> * 1" by (rule mult_left_mono) simp_all
    finally show ?thesis by simp
  qed
  {
    assume "cosmo z = Inr mu_cosmo" "dipole_mu_physical cosmo geo z A l0 b0 l_sn b_sn = Inr mu"
    then obtain a where "mu = mu_cosmo + A * cos a"
      by (auto simp: dipole_mu_physical_def split: sum.splits)
    then show "\<bar>mu - mu_cosmo\<bar> \<le> \<bar>A\<bar>" using b [of a] by simp
  }
  {
    assume "dipole_map hp geo NSIDE A l0 b0 = Inr vs"
    from dipole_map_InrD [OF this] obtain thetas where "vs = map (\<lambda>a. A * cos a) thetas"
      by blast
    moreover have "- \<bar>A\<bar> \<le> A * cos a \<and> A * cos a \<le> \<bar>A\<bar>" for a
      using b [of a] by linarith
    ultimately show "\<forall>v\<in>set vs. - \<bar>A\<bar> \<le> v \<and> v \<le> \<bar>A\<bar>"
      by auto
  }
qed

theorem dipole_term_bounded_witness:
  "hubble_flow 0.021 = Inr (5 * log 10 (hubble_distance * 0.021 * (1 + 0.021)) + 25)
   \<and> dipole_mu_physical hubble_flow great_circle 0.021 A_fit l0_fit b0_fit 95 0
       = Inr (5 * log 10 (hubble_distance * 0.021 * (1 + 0.021)) + 25
              + 0.05 * cos (central_angle (95, 0) (275, 56)))
   \<and> \<bar>5 * log 10 (hubble_distance * 0.021 * (1 + 0.021)) + 25
        + 0.05 * cos (central_angle (95, 0) (275, 56))
        - (5 * log 10 (hubble_distance * 0.021 * (1 + 0.021)) + 25)\<bar> \<le> \<bar>0.05\<bar>
   \<and> dipole_map healpix great_circle NSIDE_demo amp_dipole_demo l_dipole_deg_demo b_dipole_deg_demo
       = Inr (map (\<lambda>p. 0.05 * cos (central_angle (275, 56) (pix2ang healpix 32 p))) [0..<12288])
   \<and> list_all (\<lambda>v. - \<bar>0.05\<bar> \<le> v \<and> v \<le> \<bar>0.05\<bar>)
        (map (\<lambda>p. 0.05 * cos (central_angle (275, 56) (pix2ang healpix 32 p))) [0..<12288])"
proof -
  let ?vs = "map (\<lambda>p. 0.05 * cos (central_angle (275, 56) (pix2ang healpix 32 p))) [0..<12288]"
  let ?mc = "5 * log 10 (hubble_distance * 0.021 * (1 + 0.021)) + 25"
  let ?mu = "?mc + 0.05 * cos (central_angle (95, 0) (275, 56))"
  have n: "NSIDE_demo = Suc 31" by (simp add: NSIDE_demo_def)
  have N: "nside2npix healpix (Suc 31) = 12288" by (simp add: healpix_def)
  have h1: "hubble_flow 0.021 = Inr ?mc"
    by (rule hubble_flow_positive) simp
  have h2: "dipole_mu_physical hubble_flow great_circle 0.021 A_fit l0_fit b0_fit 95 0 = Inr ?mu"
    using h1
    by (simp add: dipole_mu_physical_def great_circle_def A_fit_def l0_fit_def b0_fit_def)
  have "dipole_map healpix great_circle (Suc 31) 0.05 275 56
      = Inr (map (\<lambda>p. 0.05 * cos (central_angle (275, 56) (pix2ang healpix (Suc 31) p)))
               [0..<nside2npix healpix (Suc 31)])"
    by (rule dipole_map_healpix_great_circle) simp_all
  then have m: "dipole_map healpix great_circle NSIDE_demo amp_dipole_demo l_dipole_deg_demo
      b_dipole_deg_demo = Inr ?vs"
    unfolding N by (simp add: n amp_dipole_demo_def l_dipole_deg_demo_def b_dipole_deg_demo_def)
  note bnd = dipole_term_bounded [where cosmo = hubble_flow and geo = great_circle
      and z = "0.021" and mu_cosmo = ?mc and mu = ?mu and l_sn = 95 and b_sn = 0
      and hp = healpix and vs = ?vs]
  have 1: "\<bar>?mu - ?mc\<bar> \<le> \<bar>0.05\<bar>"
    using bnd [where A = A_fit and ?l0.0 = l0_fit and ?b0.0 = b0_fit] h1 h2
    by (simp add: A_fit_def)
  have 2: "list_all (\<lambda>v. - \<bar>0.05\<bar> \<le> v \<and> v \<le> \<bar>0.05\<bar>) ?vs"
    using bnd [where A = amp_dipole_demo and ?l0.0 = l_dipole_deg_demo
        and ?b0.0 = b_dipole_deg_demo and NSIDE = NSIDE_demo] m
    unfolding list_all_iff by (simp add: amp_dipole_demo_def)
  from h1 h2 1 m 2 show ?thesis by blast
qed

end
